theory Spec2Isabelle
  imports Complex_Main
begin

section \<open>The trend scoring engine of daily-signal-feed\<close>

text \<open>
  A shallow embedding of \<^verbatim>\<open>src/trend_scorer.py\<close> (class \<^verbatim>\<open>TrendScorer\<close>).

  Conventions of the embedding.
  \<^item> A Python \<^verbatim>\<open>float\<close> is an exact real number: the rounding error of IEEE arithmetic
    is outside the model.
  \<^item> A Python \<^verbatim>\<open>str\<close> is a \<open>string\<close> of ASCII characters; the character classes of the
    regular expressions are the ASCII ones.
  \<^item> A \<^verbatim>\<open>dict\<close> and a \<^verbatim>\<open>Counter\<close> are association lists in insertion order with
    distinct keys; a \<^verbatim>\<open>set\<close> of sources is a list without duplicates.
  \<^item> The clock is read by the caller: every function that calls
    \<^verbatim>\<open>datetime.now\<close> takes the value read as an argument.
  \<^item> An exception is a value \<open>Inl e\<close> of a sum type; \<open>Inr\<close> is a normal return.
\<close>

subsection \<open>Values read from the history file\<close>

text \<open>What \<^verbatim>\<open>json.load\<close> returns: \<^verbatim>\<open>None\<close>, \<^verbatim>\<open>bool\<close>, \<^verbatim>\<open>int\<close>, \<^verbatim>\<open>float\<close>,
  \<^verbatim>\<open>str\<close>, \<^verbatim>\<open>list\<close> and \<^verbatim>\<open>dict\<close> with string keys.\<close>

datatype json =
    JNull
  | JBool bool
  | JInt int
  | JFloat real
  | JStr string
  | JArr "json list"
  | JObj "(string \<times> json) list"

datatype py_error =
    AttributeError
  | TypeError
  | JSONDecodeError
  | UnicodeDecodeError
  | OSError

text \<open>The history file as \<^verbatim>\<open>_load_history\<close> meets it: absent
  (\<^verbatim>\<open>exists()\<close> is false), present but \<^verbatim>\<open>open\<close> fails, present with bytes that
  are not UTF-8, present with text that is not JSON, or present with a JSON document.\<close>

datatype history_file =
    Absent
  | Unopenable
  | Undecodable
  | NotJson
  | Document json

text \<open>\<^verbatim>\<open>d.get(key, default)\<close> on a dict.\<close>

definition dict_get :: "(string \<times> 'v) list \<Rightarrow> string \<Rightarrow> 'v \<Rightarrow> 'v" where
  "dict_get d k dflt = (case map_of d k of None \<Rightarrow> dflt | Some v \<Rightarrow> v)"

text \<open>\<^verbatim>\<open>a <= b\<close> on two \<^verbatim>\<open>str\<close>: lexicographic, by code point.\<close>

fun str_le :: "string \<Rightarrow> string \<Rightarrow> bool" where
  "str_le [] bs = True"
| "str_le (a # as) [] = False"
| "str_le (a # as) (b # bs) =
     (if a = b then str_le as bs else (of_char a :: nat) < of_char b)"

text \<open>\<^verbatim>\<open>s.get("timestamp", "") >= cutoff\<close> for one element \<open>s\<close> of the history:
  only a dict has \<^verbatim>\<open>get\<close>, and only a \<^verbatim>\<open>str\<close> compares with the cutoff.\<close>

definition keep_snapshot :: "string \<Rightarrow> json \<Rightarrow> py_error + bool" where
  "keep_snapshot cutoff s =
     (case s of
        JObj d \<Rightarrow>
          (case dict_get d ''timestamp'' (JStr []) of
             JStr ts \<Rightarrow> Inr (str_le cutoff ts)
           | _ \<Rightarrow> Inl TypeError)
      | _ \<Rightarrow> Inl AttributeError)"

text \<open>\<^verbatim>\<open>[s for s in xs if s.get("timestamp", "") >= cutoff]\<close>: the first element that
  raises ends the comprehension.\<close>

fun prune :: "string \<Rightarrow> json list \<Rightarrow> py_error + json list" where
  "prune cutoff [] = Inr []"
| "prune cutoff (s # ss) =
     (case keep_snapshot cutoff s of
        Inl e \<Rightarrow> Inl e
      | Inr keep \<Rightarrow>
          (case prune cutoff ss of
             Inl e \<Rightarrow> Inl e
           | Inr rest \<Rightarrow> Inr (if keep then s # rest else rest)))"

text \<open>What \<^verbatim>\<open>for s in data\<close> iterates over: the elements of a list, the keys of a
  dict, the characters of a string; anything else is not iterable.\<close>

definition iterate :: "json \<Rightarrow> py_error + json list" where
  "iterate data =
     (case data of
        JArr xs \<Rightarrow> Inr xs
      | JObj d \<Rightarrow> Inr (map (\<lambda>(k, v). JStr k) d)
      | JStr s \<Rightarrow> Inr (map (\<lambda>c. JStr [c]) s)
      | _ \<Rightarrow> Inl TypeError)"

text \<open>\<^verbatim>\<open>_load_history\<close>. The result is the history and the warnings logged.
  \<open>cutoff\<close> is \<^verbatim>\<open>(datetime.now(timezone.utc) - timedelta(days=7)).isoformat()\<close>.
  The handler catches \<^verbatim>\<open>json.JSONDecodeError\<close> and \<^verbatim>\<open>TypeError\<close> only.\<close>

definition load_warning :: string where
  "load_warning = ''Trends: Corrupted history, starting fresh.''"

definition load_history :: "history_file \<Rightarrow> string \<Rightarrow> py_error + (json list \<times> string list)" where
  "load_history file cutoff =
     (case file of
        Absent \<Rightarrow> Inr ([], [])
      | Unopenable \<Rightarrow> Inl OSError
      | Undecodable \<Rightarrow> Inl UnicodeDecodeError
      | NotJson \<Rightarrow> Inr ([], [load_warning])
      | Document data \<Rightarrow>
          (case iterate data of
             Inl e \<Rightarrow> Inr ([], [load_warning])
           | Inr xs \<Rightarrow>
               (case prune cutoff xs of
                  Inl TypeError \<Rightarrow> Inr ([], [load_warning])
                | Inl e \<Rightarrow> Inl e
                | Inr kept \<Rightarrow> Inr (kept, []))))"

subsection \<open>Historical average and velocity\<close>

text \<open>\<^verbatim>\<open>counts.append(snapshot.get("mentions", {}).get(term, 0))\<close> for every snapshot.\<close>

definition snapshot_count :: "string \<Rightarrow> json \<Rightarrow> py_error + json" where
  "snapshot_count term snapshot =
     (case snapshot of
        JObj d \<Rightarrow>
          (case dict_get d ''mentions'' (JObj []) of
             JObj mentions \<Rightarrow> Inr (dict_get mentions term (JInt 0))
           | _ \<Rightarrow> Inl AttributeError)
      | _ \<Rightarrow> Inl AttributeError)"

fun collect_counts :: "string \<Rightarrow> json list \<Rightarrow> py_error + json list" where
  "collect_counts term [] = Inr []"
| "collect_counts term (s # ss) =
     (case snapshot_count term s of
        Inl e \<Rightarrow> Inl e
      | Inr c \<Rightarrow>
          (case collect_counts term ss of
             Inl e \<Rightarrow> Inl e
           | Inr cs \<Rightarrow> Inr (c # cs)))"

text \<open>\<^verbatim>\<open>sum(counts)\<close>: numbers add (\<^verbatim>\<open>True\<close> is 1), anything else is a
  \<^verbatim>\<open>TypeError\<close>.\<close>

definition number_of :: "json \<Rightarrow> py_error + real" where
  "number_of v =
     (case v of
        JInt i \<Rightarrow> Inr (real_of_int i)
      | JFloat r \<Rightarrow> Inr r
      | JBool b \<Rightarrow> Inr (if b then 1 else 0)
      | _ \<Rightarrow> Inl TypeError)"

fun py_sum :: "json list \<Rightarrow> py_error + real" where
  "py_sum [] = Inr 0"
| "py_sum (v # vs) =
     (case number_of v of
        Inl e \<Rightarrow> Inl e
      | Inr x \<Rightarrow> (case py_sum vs of Inl e \<Rightarrow> Inl e | Inr y \<Rightarrow> Inr (x + y)))"

definition get_historical_avg :: "json list \<Rightarrow> string \<Rightarrow> py_error + real" where
  "get_historical_avg history term =
     (if history = [] then Inr 0
      else
        (case collect_counts term history of
           Inl e \<Rightarrow> Inl e
         | Inr counts \<Rightarrow>
             (case py_sum counts of
                Inl e \<Rightarrow> Inl e
              | Inr sm \<Rightarrow>
                  Inr (if counts \<noteq> [] then sm / real (length counts) else 0))))"

definition calculate_velocity :: "json list \<Rightarrow> string \<Rightarrow> int \<Rightarrow> py_error + real" where
  "calculate_velocity history term current_count =
     (case get_historical_avg history term of
        Inl e \<Rightarrow> Inl e
      | Inr hist_avg \<Rightarrow>
          (if hist_avg = 0 then Inr (if current_count \<ge> 2 then 2 else 3 / 2)
           else Inr (min (real_of_int current_count / hist_avg) 10)))"

subsection \<open>Term extraction\<close>

text \<open>The character classes of the three patterns, on ASCII text: \<^verbatim>\<open>[A-Z]\<close>,
  \<^verbatim>\<open>[A-Za-z0-9]\<close>, \<^verbatim>\<open>\w\<close> (letters, digits and the underscore) and \<^verbatim>\<open>\s\<close>
  (the characters for which \<^verbatim>\<open>str.isspace\<close> holds: tab, line feed, vertical tab,
  form feed, carriage return, the four separators 0x1C to 0x1F and the space).\<close>

definition is_upper :: "char \<Rightarrow> bool" where
  "is_upper c = (c \<in> set ''ABCDEFGHIJKLMNOPQRSTUVWXYZ'')"

definition is_alnum :: "char \<Rightarrow> bool" where
  "is_alnum c = (is_upper c \<or> c \<in> set ''abcdefghijklmnopqrstuvwxyz0123456789'')"

definition is_word :: "char \<Rightarrow> bool" where
  "is_word c = (is_alnum c \<or> c = CHR ''_'')"

definition is_space :: "char \<Rightarrow> bool" where
  "is_space c =
     (c \<in> set [CHR 0x09, CHR 0x0A, CHR 0x0B, CHR 0x0C, CHR 0x0D,
                CHR 0x1C, CHR 0x1D, CHR 0x1E, CHR 0x1F, CHR 0x20])"

text \<open>\<^verbatim>\<open>\b\<close> in front of a word character: the previous character, if there is one,
  is not a word character. \<^verbatim>\<open>\b\<close> behind a word character: the next character, if
  there is one, is not a word character.\<close>

definition boundary_before :: "char option \<Rightarrow> bool" where
  "boundary_before prev = (case prev of None \<Rightarrow> True | Some p \<Rightarrow> \<not> is_word p)"

definition boundary_at :: "string \<Rightarrow> nat \<Rightarrow> bool" where
  "boundary_at s n = (case drop n s of [] \<Rightarrow> True | c # cs \<Rightarrow> \<not> is_word c)"

text \<open>The pattern \<^verbatim>\<open>[A-Z][A-Za-z0-9]*(?:\s+[A-Z][A-Za-z0-9]*)*\<close> at the head of a
  string: the offsets at which a capitalised word of the greedy match ends, in increasing
  order (empty when the string does not start with a capital). Both stars are greedy, so
  each word is a maximal run of \<^verbatim>\<open>[A-Za-z0-9]\<close> and each gap a maximal run of
  \<^verbatim>\<open>\s\<close>.\<close>

fun caps_ends :: "string \<Rightarrow> nat list" where
  "caps_ends [] = []"
| "caps_ends (c # cs) =
     (if \<not> is_upper c then []
      else
        (let w = length (takeWhile is_alnum cs);
             r = drop w cs;
             k = length (takeWhile is_space r)
         in Suc w # (if k = 0 then [] else map (\<lambda>e. Suc w + k + e) (caps_ends (drop k r)))))"

text \<open>The match of the whole pattern, with its final \<^verbatim>\<open>\b\<close>, at the head of a
  string: backtracking gives up capitalised words from the right until the match ends at a
  word boundary (an end inside a word is never a boundary, since the next character is a
  letter or digit). The result is the length of the match.\<close>

definition caps_match :: "string \<Rightarrow> nat option" where
  "caps_match s =
     (case filter (boundary_at s) (rev (caps_ends s)) of
        [] \<Rightarrow> None
      | n # ns \<Rightarrow> Some n)"

text \<open>\<^verbatim>\<open>re.findall\<close> for the first pattern: the leftmost match, then the search goes on
  behind it. \<open>prev\<close> is the character in front of the current position.\<close>

fun caps_findall :: "char option \<Rightarrow> string \<Rightarrow> string list" where
  "caps_findall prev [] = []"
| "caps_findall prev (c # cs) =
     (if boundary_before prev then
        (case caps_match (c # cs) of
           None \<Rightarrow> caps_findall (Some c) cs
         | Some n \<Rightarrow>
             take n (c # cs) #
             caps_findall (Some (last (take n (c # cs)))) (drop (n - 1) cs))
      else caps_findall (Some c) cs)"

text \<open>\<^verbatim>\<open>re.findall(r"\b[A-Z]{2,6}\b", text)\<close>: a run of two to six capitals between two
  word boundaries. A longer run, or a run followed by a word character, has no match
  inside it.\<close>

function acronym_findall :: "char option \<Rightarrow> string \<Rightarrow> string list" where
  "acronym_findall prev [] = []"
| "acronym_findall prev (c # cs) =
     (let n = length (takeWhile is_upper (c # cs)) in
      if boundary_before prev \<and> 2 \<le> n \<and> n \<le> 6 \<and> boundary_at (c # cs) n then
        take n (c # cs) #
        acronym_findall (Some (last (take n (c # cs)))) (drop (n - 1) cs)
      else acronym_findall (Some c) cs)"
  by pat_completeness auto
termination
  by (relation "measure (\<lambda>(prev, s). length s)") (auto simp del: takeWhile.simps)

text \<open>\<^verbatim>\<open>re.findall(r"#(\w+)", text)\<close>: the word behind each \<^verbatim>\<open>#\<close>.\<close>

fun hashtag_findall :: "string \<Rightarrow> string list" where
  "hashtag_findall [] = []"
| "hashtag_findall (c # cs) =
     (let w = takeWhile is_word cs in
      if c = CHR ''#'' \<and> w \<noteq> [] then w # hashtag_findall (drop (length w) cs)
      else hashtag_findall cs)"

definition STOP_TERMS :: "string list" where
  "STOP_TERMS =
     [''the'', ''and'', ''for'', ''that'', ''this'', ''with'', ''from'', ''are'', ''was'',
      ''has'', ''have'', ''will'', ''can'', ''but'', ''not'', ''you'', ''all'', ''they'',
      ''their'', ''its'', ''our'', ''your'', ''one'', ''two'', ''new'', ''more'', ''how'',
      ''what'', ''when'', ''who'', ''why'', ''would'', ''could'', ''should'',
      ''about'', ''into'', ''than'', ''been'', ''just'', ''also'', ''some'', ''very'',
      ''most'', ''like'', ''over'', ''after'', ''before'', ''between'', ''under'',
      ''through'', ''during'', ''first'', ''last'', ''next'', ''other'', ''many'',
      ''much'', ''each'', ''every'', ''both'', ''any'']"

text \<open>\<^verbatim>\<open>str.lower\<close> and \<^verbatim>\<open>str.strip\<close> on ASCII text.\<close>

definition lower_char :: "char \<Rightarrow> char" where
  "lower_char c =
     (case map_of (zip ''ABCDEFGHIJKLMNOPQRSTUVWXYZ'' ''abcdefghijklmnopqrstuvwxyz'') c of
        None \<Rightarrow> c
      | Some l \<Rightarrow> l)"

definition lower :: "string \<Rightarrow> string" where
  "lower s = map lower_char s"

definition strip :: "string \<Rightarrow> string" where
  "strip s = rev (dropWhile is_space (rev (dropWhile is_space s)))"

definition extract_terms :: "string \<Rightarrow> string list" where
  "extract_terms text =
     (if text = [] then []
      else
        filter (\<lambda>cleaned. 2 \<le> length cleaned \<and> lower cleaned \<notin> set STOP_TERMS)
          (map strip (caps_findall None text)) @
        filter (\<lambda>acr. lower acr \<notin> set STOP_TERMS) (acronym_findall None text) @
        hashtag_findall text)"

text \<open>The characters a term can consist of: word characters, and the white space between
  the words of a capitalised phrase.\<close>

definition term_char :: "char \<Rightarrow> bool" where
  "term_char ch = (is_word ch \<or> is_space ch)"

subsection \<open>Articles and the scorer\<close>

text \<open>An article record. A field read with \<^verbatim>\<open>article.get\<close> may be absent;
  \<open>published\<close> is an instant in seconds; \<open>engagement\<close> is a dict of named counts.
  Every other field of the article is in the extension part of the record.\<close>

record article =
  title :: "string option"
  summary :: "string option"
  source :: "string option"
  published :: "real option"
  engagement :: "(string \<times> nat) list option"
  trend_score :: real
  is_trending :: bool

text \<open>The scorer object: \<^verbatim>\<open>self.history\<close>, the \<^verbatim>\<open>Counter\<close>
  \<^verbatim>\<open>self.current_mentions\<close> and the \<^verbatim>\<open>defaultdict(set)\<close>
  \<^verbatim>\<open>self.current_sources\<close>.\<close>

record scorer =
  history :: "json list"
  current_mentions :: "(string \<times> nat) list"
  current_sources :: "(string \<times> string list) list"

definition MAX_HISTORY_DAYS :: nat where
  "MAX_HISTORY_DAYS = 7"

definition TOP_TRENDING_COUNT :: nat where
  "TOP_TRENDING_COUNT = 15"

text \<open>\<^verbatim>\<open>__init__\<close>: the history is loaded, the two aggregates start empty.\<close>

definition new_scorer :: "json list \<Rightarrow> scorer" where
  "new_scorer h = \<lparr>history = h, current_mentions = [], current_sources = []\<rparr>"

definition init :: "history_file \<Rightarrow> string \<Rightarrow> py_error + (scorer \<times> string list)" where
  "init file cutoff =
     (case load_history file cutoff of
        Inl e \<Rightarrow> Inl e
      | Inr (h, warnings) \<Rightarrow> Inr (new_scorer h, warnings))"

text \<open>\<^verbatim>\<open>self.current_mentions[term] += 1\<close>: a known key keeps its place, a new key
  goes to the end.\<close>

fun counter_incr :: "string \<Rightarrow> (string \<times> nat) list \<Rightarrow> (string \<times> nat) list" where
  "counter_incr t [] = [(t, 1)]"
| "counter_incr t ((k, c) # kvs) =
     (if k = t then (k, Suc c) # kvs else (k, c) # counter_incr t kvs)"

text \<open>\<^verbatim>\<open>self.current_sources[term].add(source)\<close>.\<close>

definition set_add :: "string \<Rightarrow> string list \<Rightarrow> string list" where
  "set_add x xs = (if x \<in> set xs then xs else xs @ [x])"

fun sources_add :: "string \<Rightarrow> string \<Rightarrow> (string \<times> string list) list \<Rightarrow> (string \<times> string list) list" where
  "sources_add t src [] = [(t, [src])]"
| "sources_add t src ((k, xs) # kvs) =
     (if k = t then (k, set_add src xs) # kvs else (k, xs) # sources_add t src kvs)"

text \<open>\<^verbatim>\<open>most_common(n)\<close>: by count, largest first, equal counts in insertion order.\<close>

definition most_common :: "nat \<Rightarrow> (string \<times> nat) list \<Rightarrow> (string \<times> nat) list" where
  "most_common n counter = take n (sort_key (\<lambda>(t, c). - int c) counter)"

text \<open>\<^verbatim>\<open>f"{article.get('title', '')} {article.get('summary', '')}"\<close>.\<close>

definition opt_str :: "string option \<Rightarrow> string" where
  "opt_str x = (case x of None \<Rightarrow> [] | Some s \<Rightarrow> s)"

definition article_text :: "'a article_scheme \<Rightarrow> string" where
  "article_text a = opt_str (title a) @ '' '' @ opt_str (summary a)"

definition article_terms :: "'a article_scheme \<Rightarrow> string list" where
  "article_terms a = extract_terms (article_text a)"

subsection \<open>Recency and engagement\<close>

text \<open>\<^verbatim>\<open>_temporal_weight\<close>; \<open>now\<close> is the clock and both instants are in seconds.\<close>

definition temporal_weight :: "real \<Rightarrow> real \<Rightarrow> real" where
  "temporal_weight now pub_date =
     (let hours_old = (now - pub_date) / 3600 in
      if hours_old < 1 then 1
      else if hours_old < 6 then 85 / 100
      else if hours_old < 12 then 7 / 10
      else if hours_old < 24 then 5 / 10
      else 3 / 10)"

text \<open>\<^verbatim>\<open>_engagement_factor\<close>; \<^verbatim>\<open>not engagement\<close> holds for an absent and for an empty
  dict.\<close>

definition engagement_factor :: "'a article_scheme \<Rightarrow> real" where
  "engagement_factor a =
     (case engagement a of
        None \<Rightarrow> 1
      | Some e \<Rightarrow>
          if e = [] then 1
          else
            (let likes = dict_get e ''likes'' 0;
                 retweets = dict_get e ''retweets'' 0;
                 replies = dict_get e ''replies'' 0;
                 upvotes = dict_get e ''upvotes'' 0;
                 tot = likes + (retweets * 2) + replies + upvotes
             in if tot = 0 then 1 else 1 + log 10 (1 + real tot) * (2 / 10)))"

text \<open>\<^verbatim>\<open>round(x, 2)\<close>: to the nearest multiple of 0.01, a tie to the even one.\<close>

definition round2 :: "real \<Rightarrow> real" where
  "round2 x =
     (let y = x * 100;
          f = \<lfloor>y\<rfloor>;
          d = y - of_int f
      in of_int (if d < 1 / 2 then f else if 1 / 2 < d then f + 1
                 else if even f then f else f + 1) / 100)"

text \<open>\<^verbatim>\<open>max(values, default=0.0)\<close>.\<close>

fun max_default :: "real list \<Rightarrow> real" where
  "max_default [] = 0"
| "max_default (x # xs) = fold max xs x"

subsection \<open>Scoring a batch\<close>

text \<open>Phase 1 of \<^verbatim>\<open>score_articles\<close>: every term of every article is counted and
  its article's source recorded.\<close>

definition mention :: "string \<Rightarrow> string \<Rightarrow> scorer \<Rightarrow> scorer" where
  "mention src t st =
     st\<lparr>current_mentions := counter_incr t (current_mentions st),
        current_sources := sources_add t src (current_sources st)\<rparr>"

definition phase1_article :: "'a article_scheme \<Rightarrow> scorer \<Rightarrow> scorer" where
  "phase1_article a st = fold (mention (opt_str (source a))) (article_terms a) st"

definition phase1 :: "'a article_scheme list \<Rightarrow> scorer \<Rightarrow> scorer" where
  "phase1 articles st = fold phase1_article articles st"

text \<open>Phase 2: the loop over \<^verbatim>\<open>self.current_mentions.items()\<close> that builds
  \<^verbatim>\<open>term_scores\<close>. The first exception of \<^verbatim>\<open>_calculate_velocity\<close> ends it.\<close>

fun phase2 ::
  "json list \<Rightarrow> (string \<times> string list) list \<Rightarrow> (string \<times> nat) list \<Rightarrow>
   py_error + (string \<times> real) list" where
  "phase2 h srcs [] = Inr []"
| "phase2 h srcs ((t, count) # items) =
     (if count < 2 then phase2 h srcs items
      else
        (case calculate_velocity h t (int count) of
           Inl e \<Rightarrow> Inl e
         | Inr velocity \<Rightarrow>
             (let num_sources = length (dict_get srcs t []);
                  cross_source = min (1 + (15 / 100) * (real_of_int (int num_sources - 1))) 2
              in case phase2 h srcs items of
                   Inl e \<Rightarrow> Inl e
                 | Inr term_scores \<Rightarrow> Inr ((t, velocity * cross_source) # term_scores))))"

text \<open>Phase 3: the score of one article. An article without \<^verbatim>\<open>published\<close> is as old
  as the clock.\<close>

definition max_term_score :: "(string \<times> real) list \<Rightarrow> string list \<Rightarrow> real" where
  "max_term_score term_scores terms = max_default (map (\<lambda>t. dict_get term_scores t 0) terms)"

definition phase3_article :: "real \<Rightarrow> (string \<times> real) list \<Rightarrow> 'a article_scheme \<Rightarrow> 'a article_scheme" where
  "phase3_article now term_scores a =
     (let terms = article_terms a;
          engagement = engagement_factor a;
          temporal = temporal_weight now (case published a of None \<Rightarrow> now | Some p \<Rightarrow> p)
      in a\<lparr>trend_score := round2 (max_term_score term_scores terms * engagement * temporal)\<rparr>)"

text \<open>Phase 4: the threshold is read from a sorted copy (largest score first, equal scores
  in the order of the batch), then every article of the batch is tagged.\<close>

definition trending_threshold :: "'a article_scheme list \<Rightarrow> real" where
  "trending_threshold articles =
     (let sorted_articles = sort_key (\<lambda>a. - trend_score a) articles
      in if length sorted_articles \<ge> TOP_TRENDING_COUNT
         then trend_score (sorted_articles ! (TOP_TRENDING_COUNT - 1))
         else 5 / 10)"

definition phase4 :: "'a article_scheme list \<Rightarrow> 'a article_scheme list" where
  "phase4 articles =
     map (\<lambda>a. a\<lparr>is_trending := (trend_score a \<ge> max (trending_threshold articles) (5 / 10))\<rparr>)
       articles"

definition score_articles ::
  "real \<Rightarrow> 'a article_scheme list \<Rightarrow> scorer \<Rightarrow> py_error + ('a article_scheme list \<times> scorer)" where
  "score_articles now articles st =
     (let st1 = phase1 articles st in
      case phase2 (history st1) (current_sources st1) (current_mentions st1) of
        Inl e \<Rightarrow> Inl e
      | Inr term_scores \<Rightarrow>
          Inr (phase4 (map (phase3_article now term_scores) articles), st1))"

subsection \<open>Trending topics\<close>

record topic =
  topic_term :: string
  topic_mentions :: nat
  topic_sources :: "string list"
  topic_num_sources :: nat
  topic_velocity :: real
  topic_direction :: string
  topic_score :: real

text \<open>The loop of \<^verbatim>\<open>get_trending_topics\<close> over \<^verbatim>\<open>most_common(100)\<close> that builds
  \<^verbatim>\<open>term_data\<close>. The sample of sources is the first five of the set in the order of
  the model; Python fixes no order for a set.\<close>

fun term_data ::
  "json list \<Rightarrow> (string \<times> string list) list \<Rightarrow> (string \<times> nat) list \<Rightarrow>
   py_error + topic list" where
  "term_data h srcs [] = Inr []"
| "term_data h srcs ((t, count) # items) =
     (if count < 2 then term_data h srcs items
      else
        (case calculate_velocity h t (int count) of
           Inl e \<Rightarrow> Inl e
         | Inr velocity \<Rightarrow>
             if velocity < 1 then term_data h srcs items
             else
               (case get_historical_avg h t of
                  Inl e \<Rightarrow> Inl e
                | Inr hist_avg \<Rightarrow>
                    (let sources = take 5 (dict_get srcs t []);
                         direction =
                           (if hist_avg = 0 then ''new''
                            else if velocity > 15 / 10 then ''up''
                            else if velocity > 8 / 10 then ''stable''
                            else ''down'');
                         num_sources = length (dict_get srcs t []);
                         cross_source = min (1 + (15 / 100) * (real_of_int (int num_sources - 1))) 2;
                         score = velocity * cross_source
                     in case term_data h srcs items of
                          Inl e \<Rightarrow> Inl e
                        | Inr topics \<Rightarrow>
                            Inr (\<lparr>topic_term = t, topic_mentions = count,
                                  topic_sources = sources, topic_num_sources = num_sources,
                                  topic_velocity = round2 velocity, topic_direction = direction,
                                  topic_score = round2 score\<rparr> # topics)))))"

definition get_trending_topics :: "scorer \<Rightarrow> py_error + topic list" where
  "get_trending_topics st =
     (case term_data (history st) (current_sources st) (most_common 100 (current_mentions st)) of
        Inl e \<Rightarrow> Inl e
      | Inr topics \<Rightarrow> Inr (take TOP_TRENDING_COUNT (sort_key (\<lambda>x. - topic_score x) topics)))"

subsection \<open>Saving the history\<close>

text \<open>The snapshot \<^verbatim>\<open>save_history\<close> builds from a timestamp and
  \<^verbatim>\<open>dict(self.current_mentions.most_common(200))\<close>.\<close>

definition make_snapshot :: "string \<Rightarrow> (string \<times> nat) list \<Rightarrow> json" where
  "make_snapshot ts ms =
     JObj [(''timestamp'', JStr ts), (''mentions'', JObj (map (\<lambda>(t, c). (t, JInt (int c))) ms))]"

text \<open>\<^verbatim>\<open>save_history\<close>. \<open>ts\<close> is \<^verbatim>\<open>datetime.now(timezone.utc).isoformat()\<close> and
  \<open>cutoff\<close> is the second reading of the clock, seven days back, in the same format. The
  result is the scorer and the document written to the file (the write itself is taken to
  succeed).\<close>

definition save_history :: "string \<Rightarrow> string \<Rightarrow> scorer \<Rightarrow> py_error + (scorer \<times> history_file)" where
  "save_history ts cutoff st =
     (let snapshot = make_snapshot ts (most_common 200 (current_mentions st))
      in case prune cutoff (history st @ [snapshot]) of
           Inl e \<Rightarrow> Inl e
         | Inr kept \<Rightarrow> Inr (st\<lparr>history := kept\<rparr>, Document (JArr kept)))"

subsection \<open>The rank of a score\<close>

text \<open>The words of the specification for the cutoff of phase 4: \<open>v\<close> is the \<open>k\<close>-th
  highest of a list of scores when it is one of them, fewer than \<open>k\<close> scores lie above it
  and at least \<open>k\<close> scores lie at or above it.\<close>

definition kth_highest :: "nat \<Rightarrow> real list \<Rightarrow> real \<Rightarrow> bool" where
  "kth_highest k scores v =
     (v \<in> set scores \<and> length (filter (\<lambda>s. v < s) scores) < k \<and>
      k \<le> length (filter (\<lambda>s. v \<le> s) scores))"

subsection \<open>A sample batch\<close>

text \<open>Three articles of two feeds whose titles mention GPT-5, with no summary, no
  engagement and no publication date; the concrete inputs of the instances below.\<close>

definition sample_article :: "string \<Rightarrow> string \<Rightarrow> article" where
  "sample_article t s =
     \<lparr>title = Some t, summary = None, source = Some s, published = None,
      engagement = None, trend_score = 0, is_trending = False\<rparr>"

definition sample_batch :: "article list" where
  "sample_batch =
     [sample_article ''GPT-5'' ''feed-a'',
      sample_article ''GPT-5 is out'' ''feed-b'',
      sample_article ''Try GPT-5 Now'' ''feed-a'']"

text \<open>Sixteen articles: fifteen copies of the first one and one that mentions no term.\<close>

definition large_batch :: "article list" where
  "large_batch =
     replicate 15 (sample_article ''GPT-5'' ''feed-a'') @ [sample_article ''quiet day'' ''feed-b'']"

section \<open>Properties\<close>

subsection \<open>Velocity\<close>

text \<open>
  Claim C1. For every term, \<^verbatim>\<open>_calculate_velocity(term, current_count)\<close> returns exactly
  2.0 when the historical average is 0 and the count is at least 2, exactly 1.5 when the
  historical average is 0 and the count is below 2, and otherwise the quotient of the count
  by the historical average, capped so that the result never exceeds 10.0.
\<close>

theorem calculate_velocity_cases:
  "(get_historical_avg h t = Inr 0 \<and> 2 \<le> c \<longrightarrow> calculate_velocity h t c = Inr 2) \<and>
   (get_historical_avg h t = Inr 0 \<and> c < 2 \<longrightarrow> calculate_velocity h t c = Inr (3 / 2)) \<and>
   (\<forall>a. get_historical_avg h t = Inr a \<and> a \<noteq> 0 \<longrightarrow>
        calculate_velocity h t c = Inr (min (real_of_int c / a) 10) \<and>
        (\<forall>v. calculate_velocity h t c = Inr v \<longrightarrow> v \<le> 10))"
  by (simp add: calculate_velocity_def)

theorem calculate_velocity_cases_witness:
  "calculate_velocity [] ''AI'' 2 = Inr 2 \<and>
   calculate_velocity [] ''AI'' 1 = Inr (3 / 2) \<and>
   calculate_velocity
     [JObj [(''timestamp'', JStr ''2026-11-01T00:00:00+00:00''),
            (''mentions'', JObj [(''AI'', JInt 2)])]] ''AI'' 2000 = Inr 10 \<and>
   calculate_velocity
     [JObj [(''timestamp'', JStr ''2026-11-01T00:00:00+00:00''),
            (''mentions'', JObj [(''AI'', JInt 2)])]] ''AI'' 3 = Inr (3 / 2)"
proof -
  let ?h = "[JObj [(''timestamp'', JStr ''2026-11-01T00:00:00+00:00''),
                   (''mentions'', JObj [(''AI'', JInt 2)])]]"
  have e: "get_historical_avg [] ''AI'' = Inr 0"
    by (simp add: get_historical_avg_def)
  have a: "get_historical_avg ?h ''AI'' = Inr 2"
    by (simp add: get_historical_avg_def snapshot_count_def dict_get_def number_of_def)
  show ?thesis
    using calculate_velocity_cases [of "[]" "''AI''" 2]
      calculate_velocity_cases [of "[]" "''AI''" 1]
      calculate_velocity_cases [of ?h "''AI''" 2000]
      calculate_velocity_cases [of ?h "''AI''" 3] e a
    by simp
qed

subsection \<open>Historical average\<close>

lemma snapshot_count_make:
  "snapshot_count t (make_snapshot ts ms) =
     Inr (JInt (int (case map_of ms t of None \<Rightarrow> 0 | Some c \<Rightarrow> c)))"
  by (induction ms) (auto simp: snapshot_count_def make_snapshot_def dict_get_def split: option.splits)

lemma collect_counts_make:
  "collect_counts t (map (\<lambda>p. make_snapshot (fst p) (snd p)) snaps) =
     Inr (map (\<lambda>p. JInt (int (case map_of (snd p) t of None \<Rightarrow> 0 | Some c \<Rightarrow> c))) snaps)"
  by (induction snaps) (auto simp: snapshot_count_make)

lemma py_sum_ints:
  "py_sum (map (\<lambda>x. JInt (int (g x))) xs) = Inr (real (\<Sum>x\<leftarrow>xs. g x))"
  by (induction xs) (auto simp: number_of_def)

lemma get_historical_avg_snapshots:
  "get_historical_avg (map (\<lambda>p. make_snapshot (fst p) (snd p)) snaps) t =
     Inr (if snaps = [] then 0
          else real (\<Sum>p\<leftarrow>snaps. case map_of (snd p) t of None \<Rightarrow> 0 | Some c \<Rightarrow> c)
               / real (length snaps))"
  by (simp add: get_historical_avg_def collect_counts_make py_sum_ints)

text \<open>
  Claim C5. For every term, \<^verbatim>\<open>_get_historical_avg\<close> returns the arithmetic mean of the
  term's count over all retained snapshots, a snapshot without the term counting as 0, and
  returns exactly 0.0 when no snapshot is retained. The snapshots are those
  \<^verbatim>\<open>save_history\<close> writes: a timestamp and a mapping from terms to counts.
\<close>

theorem get_historical_avg_mean:
  "get_historical_avg (map (\<lambda>(ts, ms). make_snapshot ts ms) snaps) t =
     Inr (if snaps = [] then 0
          else real (\<Sum>(ts, ms)\<leftarrow>snaps. case map_of ms t of None \<Rightarrow> 0 | Some c \<Rightarrow> c)
               / real (length snaps))"
  using get_historical_avg_snapshots [of snaps t] by (simp add: case_prod_unfold)

theorem get_historical_avg_mean_witness:
  "get_historical_avg
     [make_snapshot ''2026-11-01T00:00:00+00:00'' [(''AI'', 3), (''LLM'', 2)],
      make_snapshot ''2026-11-02T00:00:00+00:00'' [(''LLM'', 4)]] ''AI'' = Inr (3 / 2) \<and>
   get_historical_avg [] ''AI'' = Inr 0"
  using get_historical_avg_mean
    [of "[(''2026-11-01T00:00:00+00:00'', [(''AI'', 3), (''LLM'', 2)]),
          (''2026-11-02T00:00:00+00:00'', [(''LLM'', 4)])]" "''AI''"]
    get_historical_avg_mean [of "[]" "''AI''"]
  by simp

subsection \<open>Loading a damaged history file\<close>

text \<open>What the handler of \<^verbatim>\<open>_load_history\<close> covers: text that is not JSON, a document
  that cannot be iterated, and a snapshot whose timestamp does not compare with a string.
  Each is logged and gives the empty history.\<close>

lemma load_history_handled:
  "load_history NotJson cutoff = Inr ([], [load_warning])"
  "load_history (Document JNull) cutoff = Inr ([], [load_warning])"
  "load_history (Document (JInt n)) cutoff = Inr ([], [load_warning])"
  "load_history (Document (JArr [JObj [(''timestamp'', JInt n)]])) cutoff = Inr ([], [load_warning])"
  by (simp_all add: load_history_def iterate_def keep_snapshot_def dict_get_def)

text \<open>
  Claim C3. For every content of the history file that is unreadable or malformed,
  parseable JSON that is not a list of snapshot objects included, loading logs a warning
  and returns the empty history, and no exception reaches the caller.

  The code does not do this for a document whose elements are not objects: the list
  \<^verbatim>\<open>[1]\<close> and the object \<^verbatim>\<open>{"a": 1}\<close> both parse, and the call of \<^verbatim>\<open>get\<close> on
  their first element raises \<^verbatim>\<open>AttributeError\<close>, which the handler does not catch.
\<close>

theorem load_history_non_object_raises:
  "load_history (Document (JArr [JInt 1])) cutoff = Inl AttributeError \<and>
   load_history (Document (JObj [(''a'', JInt 1)])) cutoff = Inl AttributeError"
  by (simp add: load_history_def iterate_def keep_snapshot_def)

subsection \<open>The sample batches, evaluated\<close>

lemma terms_gpt5: "article_terms (sample_article ''GPT-5'' s) = [''GPT'', ''GPT'']"
  by code_simp

lemma terms_gpt5_out: "article_terms (sample_article ''GPT-5 is out'' s) = [''GPT'', ''GPT'']"
  by code_simp

lemma terms_try_gpt5: "article_terms (sample_article ''Try GPT-5 Now'' s) = [''Try GPT'', ''Now'', ''GPT'']"
  by code_simp

lemma terms_quiet: "article_terms (sample_article ''quiet day'' s) = []"
  by code_simp

lemma round2_230: "round2 (23 / 10) = 23 / 10"
  by (simp add: round2_def Let_def)

lemma round2_2: "round2 2 = 2"
  by (simp add: round2_def Let_def)

lemma round2_0: "round2 0 = 0"
  by (simp add: round2_def Let_def)

lemma sample_factor: "engagement_factor (sample_article t s) = 1"
  by (simp add: engagement_factor_def sample_article_def)

lemma sample_weight:
  "temporal_weight now (case published (sample_article t s) of None \<Rightarrow> now | Some p \<Rightarrow> p) = 1"
  by (simp add: sample_article_def temporal_weight_def)

lemma sample_phase1:
  "phase1 sample_batch (new_scorer h) =
     \<lparr>history = h,
      current_mentions = [(''GPT'', 5), (''Try GPT'', 1), (''Now'', 1)],
      current_sources =
        [(''GPT'', [''feed-a'', ''feed-b'']), (''Try GPT'', [''feed-a'']), (''Now'', [''feed-a''])]\<rparr>"
  by (simp add: phase1_def phase1_article_def sample_batch_def terms_gpt5 terms_gpt5_out
      terms_try_gpt5 mention_def new_scorer_def set_add_def)
     (simp add: sample_article_def opt_str_def)

lemma sample_phase2:
  "phase2 []
     [(''GPT'', [''feed-a'', ''feed-b'']), (''Try GPT'', [''feed-a'']), (''Now'', [''feed-a''])]
     [(''GPT'', 5), (''Try GPT'', 1), (''Now'', 1)] = Inr [(''GPT'', 23 / 10)]"
  by (simp add: calculate_velocity_def get_historical_avg_def dict_get_def)

lemma sample_max:
  "max_term_score [(''GPT'', 23 / 10)] [''GPT'', ''GPT''] = 23 / 10"
  "max_term_score [(''GPT'', 23 / 10)] [''Try GPT'', ''Now'', ''GPT''] = 23 / 10"
  by (simp_all add: max_term_score_def dict_get_def)

lemma sample_phase3:
  "map (phase3_article now [(''GPT'', 23 / 10)]) sample_batch =
     map (\<lambda>a. a\<lparr>trend_score := 23 / 10\<rparr>) sample_batch"
  unfolding sample_batch_def phase3_article_def Let_def list.map terms_gpt5 terms_gpt5_out
    terms_try_gpt5 sample_factor sample_max sample_weight
  by (simp only: mult_1_right round2_230)

lemma sample_phase4:
  "phase4 (map (\<lambda>a. a\<lparr>trend_score := 23 / 10\<rparr>) sample_batch) =
     map (\<lambda>a. a\<lparr>trend_score := 23 / 10, is_trending := True\<rparr>) sample_batch"
  by (simp add: phase4_def trending_threshold_def TOP_TRENDING_COUNT_def sample_batch_def)

lemma sample_score:
  "score_articles now sample_batch (new_scorer []) =
     Inr (map (\<lambda>a. a\<lparr>trend_score := 23 / 10, is_trending := True\<rparr>) sample_batch,
          phase1 sample_batch (new_scorer []))"
proof -
  let ?st = "phase1 sample_batch (new_scorer [])"
  have p2: "phase2 (history ?st) (current_sources ?st) (current_mentions ?st) =
      Inr [(''GPT'', 23 / 10)]"
    unfolding sample_phase1 scorer.simps by (rule sample_phase2)
  show ?thesis
    unfolding score_articles_def Let_def p2 sum.case sample_phase3 sample_phase4 ..
qed

lemma sample_topics:
  "get_trending_topics (phase1 sample_batch (new_scorer [])) =
     Inr [\<lparr>topic_term = ''GPT'', topic_mentions = 5, topic_sources = [''feed-a'', ''feed-b''],
           topic_num_sources = 2, topic_velocity = 2, topic_direction = ''new'',
           topic_score = 23 / 10\<rparr>]"
  by (simp add: sample_phase1 get_trending_topics_def most_common_def calculate_velocity_def
      get_historical_avg_def dict_get_def TOP_TRENDING_COUNT_def round2_def Let_def)

lemma large_phase1:
  "phase1 large_batch (new_scorer []) =
     \<lparr>history = [], current_mentions = [(''GPT'', 30)],
      current_sources = [(''GPT'', [''feed-a''])]\<rparr>"
  by (simp add: large_batch_def phase1_def phase1_article_def terms_gpt5 terms_quiet mention_def
      new_scorer_def set_add_def eval_nat_numeral)
     (simp add: sample_article_def opt_str_def)

lemma large_phase2:
  "phase2 [] [(''GPT'', [''feed-a''])] [(''GPT'', 30)] = Inr [(''GPT'', 2)]"
  by (simp add: calculate_velocity_def get_historical_avg_def dict_get_def)

lemma large_phase3_a:
  "phase3_article now [(''GPT'', 2)] (sample_article ''GPT-5'' s) =
     (sample_article ''GPT-5'' s)\<lparr>trend_score := 2\<rparr>"
  unfolding phase3_article_def Let_def terms_gpt5 sample_factor sample_weight
  by (simp add: max_term_score_def dict_get_def round2_2)

lemma large_phase3_b:
  "phase3_article now [(''GPT'', 2)] (sample_article ''quiet day'' s) =
     (sample_article ''quiet day'' s)\<lparr>trend_score := 0\<rparr>"
  unfolding phase3_article_def Let_def terms_quiet sample_factor sample_weight
  by (simp add: max_term_score_def round2_0)

lemma large_threshold:
  "trending_threshold
     (replicate 15 ((sample_article ''GPT-5'' ''feed-a'')\<lparr>trend_score := 2\<rparr>) @
      [(sample_article ''quiet day'' ''feed-b'')\<lparr>trend_score := 0\<rparr>]) = 2"
proof -
  let ?xs = "replicate 15 ((sample_article ''GPT-5'' ''feed-a'')\<lparr>trend_score := 2\<rparr>) @
      [(sample_article ''quiet day'' ''feed-b'')\<lparr>trend_score := 0\<rparr>]"
  have "sorted (map (\<lambda>a. - trend_score a) ?xs)"
    by (simp add: sorted_append)
  then have "sort_key (\<lambda>a. - trend_score a) ?xs = ?xs"
    by (rule sort_key_id_if_sorted)
  then show ?thesis
    by (simp add: trending_threshold_def TOP_TRENDING_COUNT_def nth_append)
qed

lemma large_score:
  "score_articles now large_batch (new_scorer []) =
     Inr (replicate 15
            ((sample_article ''GPT-5'' ''feed-a'')\<lparr>trend_score := 2, is_trending := True\<rparr>) @
          [(sample_article ''quiet day'' ''feed-b'')\<lparr>trend_score := 0, is_trending := False\<rparr>],
          phase1 large_batch (new_scorer []))"
proof -
  let ?st = "phase1 large_batch (new_scorer [])"
  have p2: "phase2 (history ?st) (current_sources ?st) (current_mentions ?st) = Inr [(''GPT'', 2)]"
    unfolding large_phase1 scorer.simps by (rule large_phase2)
  have p3: "map (phase3_article now [(''GPT'', 2)]) large_batch =
      replicate 15 ((sample_article ''GPT-5'' ''feed-a'')\<lparr>trend_score := 2\<rparr>) @
      [(sample_article ''quiet day'' ''feed-b'')\<lparr>trend_score := 0\<rparr>]"
    by (simp add: large_batch_def large_phase3_a large_phase3_b)
  have p4: "phase4 (replicate 15 ((sample_article ''GPT-5'' ''feed-a'')\<lparr>trend_score := 2\<rparr>) @
      [(sample_article ''quiet day'' ''feed-b'')\<lparr>trend_score := 0\<rparr>]) =
      replicate 15
        ((sample_article ''GPT-5'' ''feed-a'')\<lparr>trend_score := 2, is_trending := True\<rparr>) @
      [(sample_article ''quiet day'' ''feed-b'')\<lparr>trend_score := 0, is_trending := False\<rparr>]"
    unfolding phase4_def large_threshold by simp
  show ?thesis
    unfolding score_articles_def Let_def p2 sum.case p3 p4 ..
qed

subsection \<open>Trending topics\<close>

lemma round2_ge_1: "1 \<le> x \<Longrightarrow> 1 \<le> round2 x"
proof -
  assume x: "1 \<le> x"
  then have "100 \<le> \<lfloor>x * 100\<rfloor>" by (simp add: le_floor_iff)
  then show ?thesis by (auto simp: round2_def Let_def)
qed

lemma term_data_topics:
  "term_data h srcs items = Inr topics \<Longrightarrow> x \<in> set topics \<Longrightarrow>
     (topic_direction x = ''new'' \<or> topic_direction x = ''up'' \<or> topic_direction x = ''stable'') \<and>
     1 \<le> topic_velocity x \<and> 2 \<le> topic_mentions x"
proof (induction h srcs items arbitrary: topics rule: term_data.induct)
  case (1 h srcs)
  then show ?case by simp
next
  case (2 h srcs t count items)
  then show ?case
    by (auto simp: Let_def round2_ge_1 split: if_splits sum.splits)
qed

text \<open>
  Claim C10. Every topic record that \<^verbatim>\<open>get_trending_topics\<close> returns has the direction
  "new", "up" or "stable", never "down", a velocity of at least 1.0 and at least 2
  mentions: a term with a smaller count or velocity is skipped before it is classified.
\<close>

theorem trending_topics_direction:
  assumes "get_trending_topics st = Inr topics" and "x \<in> set topics"
  shows "(topic_direction x = ''new'' \<or> topic_direction x = ''up'' \<or>
          topic_direction x = ''stable'') \<and>
     topic_direction x \<noteq> ''down'' \<and> 1 \<le> topic_velocity x \<and> 2 \<le> topic_mentions x"
proof -
  from assms(1) obtain all_topics where
    td: "term_data (history st) (current_sources st) (most_common 100 (current_mentions st)) =
           Inr all_topics"
    and out: "topics = take TOP_TRENDING_COUNT (sort_key (\<lambda>x. - topic_score x) all_topics)"
    by (auto simp: get_trending_topics_def split: sum.splits)
  from assms(2) out have "x \<in> set all_topics"
    by (auto dest: in_set_takeD)
  from term_data_topics [OF td this] show ?thesis by auto
qed

theorem trending_topics_direction_witness:
  "get_trending_topics (phase1 sample_batch (new_scorer [])) =
     Inr [\<lparr>topic_term = ''GPT'', topic_mentions = 5, topic_sources = [''feed-a'', ''feed-b''],
           topic_num_sources = 2, topic_velocity = 2, topic_direction = ''new'',
           topic_score = 23 / 10\<rparr>] \<and>
   topic_direction
     \<lparr>topic_term = ''GPT'', topic_mentions = 5, topic_sources = [''feed-a'', ''feed-b''],
      topic_num_sources = 2, topic_velocity = 2, topic_direction = ''new'',
      topic_score = 23 / 10\<rparr> \<noteq> ''down''"
proof -
  let ?x = "\<lparr>topic_term = ''GPT'', topic_mentions = 5, topic_sources = [''feed-a'', ''feed-b''],
      topic_num_sources = 2, topic_velocity = 2, topic_direction = ''new'',
      topic_score = 23 / 10\<rparr>"
  have "?x \<in> set [?x]" by simp
  from trending_topics_direction [OF sample_topics this] sample_topics
  show ?thesis by blast
qed

subsection \<open>What scoring changes\<close>

lemma phase3_frame:
  "phase3_article now ts a = a\<lparr>trend_score := trend_score (phase3_article now ts a)\<rparr>"
  by (simp add: phase3_article_def Let_def)

lemma phase4_length: "length (phase4 xs) = length xs"
  by (simp add: phase4_def)

lemma phase4_nth:
  "i < length xs \<Longrightarrow> phase4 xs ! i = (xs ! i)\<lparr>is_trending := is_trending (phase4 xs ! i)\<rparr>"
  by (simp add: phase4_def)

lemma phase4_scores: "map trend_score (phase4 xs) = map trend_score xs"
  by (simp add: phase4_def)

lemma phase4_flag:
  "a \<in> set (phase4 xs) \<Longrightarrow>
     is_trending a = (max (trending_threshold xs) (5 / 10) \<le> trend_score a)"
  by (auto simp: phase4_def)

lemma score_articles_Inr:
  "score_articles now arts st = Inr (out, st') \<Longrightarrow>
     \<exists>ts. phase2 (history (phase1 arts st)) (current_sources (phase1 arts st))
             (current_mentions (phase1 arts st)) = Inr ts \<and>
          out = phase4 (map (phase3_article now ts) arts) \<and> st' = phase1 arts st"
  by (auto simp: score_articles_def Let_def split: sum.splits)

text \<open>
  Claim C9. For every batch, \<^verbatim>\<open>score_articles\<close> returns the articles it was given, in
  the order it was given them (the sort of phase 4 works on a copy), and writes only
  \<^verbatim>\<open>trend_score\<close> and \<^verbatim>\<open>is_trending\<close> on each: every other field is unchanged.
\<close>

theorem score_articles_frame:
  assumes "score_articles now arts st = Inr (out, st')"
  shows "length out = length arts \<and>
     (\<forall>i<length arts.
        out ! i = (arts ! i)\<lparr>trend_score := trend_score (out ! i),
                              is_trending := is_trending (out ! i)\<rparr>)"
proof -
  from score_articles_Inr [OF assms] obtain ts where
    out: "out = phase4 (map (phase3_article now ts) arts)" by blast
  have len: "length out = length arts" by (simp add: out phase4_length)
  have "out ! i = (arts ! i)\<lparr>trend_score := trend_score (out ! i),
                              is_trending := is_trending (out ! i)\<rparr>"
    if i: "i < length arts" for i
  proof -
    let ?b = "phase3_article now ts (arts ! i)"
    have 1: "out ! i = ?b\<lparr>is_trending := is_trending (out ! i)\<rparr>"
      using phase4_nth [of i "map (phase3_article now ts) arts"] i by (simp add: out)
    have 2: "?b = (arts ! i)\<lparr>trend_score := trend_score ?b\<rparr>"
      by (rule phase3_frame)
    have 3: "trend_score (out ! i) = trend_score ?b"
      by (subst 1) simp
    show ?thesis
      by (subst 1, subst 2) (simp add: 3)
  qed
  with len show ?thesis by blast
qed

theorem score_articles_frame_witness:
  "score_articles 0 sample_batch (new_scorer []) =
     Inr (map (\<lambda>a. a\<lparr>trend_score := 23 / 10, is_trending := True\<rparr>) sample_batch,
          phase1 sample_batch (new_scorer [])) \<and>
   length (map (\<lambda>a. a\<lparr>trend_score := 23 / 10, is_trending := True\<rparr>) sample_batch) = 3 \<and>
   map (\<lambda>a. a\<lparr>trend_score := 23 / 10, is_trending := True\<rparr>) sample_batch ! 1 =
     (sample_article ''GPT-5 is out'' ''feed-b'')\<lparr>trend_score := 23 / 10, is_trending := True\<rparr>"
proof -
  let ?out = "map (\<lambda>a. a\<lparr>trend_score := 23 / 10, is_trending := True\<rparr>) sample_batch"
  note e = sample_score [of 0]
  from score_articles_frame [OF e] have
    len: "length ?out = length sample_batch" and
    nth: "1 < length sample_batch \<Longrightarrow>
      ?out ! 1 = (sample_batch ! 1)\<lparr>trend_score := trend_score (?out ! 1),
                                     is_trending := is_trending (?out ! 1)\<rparr>"
    by blast+
  have l3: "length sample_batch = 3" by (simp add: sample_batch_def)
  have n1: "sample_batch ! 1 = sample_article ''GPT-5 is out'' ''feed-b''"
    by (simp add: sample_batch_def)
  have v: "trend_score (?out ! 1) = 23 / 10" "is_trending (?out ! 1) = True"
    by (simp_all add: sample_batch_def)
  from nth l3 have "?out ! 1 = (sample_batch ! 1)\<lparr>trend_score := trend_score (?out ! 1),
                                     is_trending := is_trending (?out ! 1)\<rparr>"
    by simp
  then have "?out ! 1 =
      (sample_article ''GPT-5 is out'' ''feed-b'')\<lparr>trend_score := 23 / 10, is_trending := True\<rparr>"
    unfolding n1 v .
  with e len l3 show ?thesis by simp
qed

subsection \<open>The trending cutoff\<close>

lemma sort_desc_nth_mono:
  fixes f :: "'a \<Rightarrow> real"
  assumes "i \<le> j" and "j < length xs"
  shows "f (sort_key (\<lambda>a. - f a) xs ! j) \<le> f (sort_key (\<lambda>a. - f a) xs ! i)"
proof -
  let ?ys = "sort_key (\<lambda>a. - f a) xs"
  have "sorted (map (\<lambda>a. - f a) ?ys)" by (rule sorted_sort_key)
  from sorted_nth_mono [OF this, of i j] assms
  show ?thesis by simp
qed

lemma filter_above_drop_empty:
  fixes f :: "'a \<Rightarrow> real"
  assumes "n < length xs"
  shows "filter (\<lambda>a. f (sort_key (\<lambda>a. - f a) xs ! n) < f a)
           (drop n (sort_key (\<lambda>a. - f a) xs)) = []"
proof -
  let ?ys = "sort_key (\<lambda>a. - f a) xs"
  have "\<not> f (?ys ! n) < f a" if "a \<in> set (drop n ?ys)" for a
  proof -
    from that obtain j where j: "j < length (drop n ?ys)" "a = drop n ?ys ! j"
      by (auto simp: in_set_conv_nth)
    then have "a = ?ys ! (n + j)" and "n + j < length xs" by auto
    with sort_desc_nth_mono [of n "n + j" xs f] show ?thesis by simp
  qed
  then show ?thesis by (simp add: filter_empty_conv)
qed

lemma filter_atleast_take_all:
  fixes f :: "'a \<Rightarrow> real"
  assumes "n < length xs"
  shows "filter (\<lambda>a. f (sort_key (\<lambda>a. - f a) xs ! n) \<le> f a)
           (take (Suc n) (sort_key (\<lambda>a. - f a) xs)) =
         take (Suc n) (sort_key (\<lambda>a. - f a) xs)"
proof -
  let ?ys = "sort_key (\<lambda>a. - f a) xs"
  have "f (?ys ! n) \<le> f a" if "a \<in> set (take (Suc n) ?ys)" for a
  proof -
    from that obtain j where j: "j < length (take (Suc n) ?ys)" "a = take (Suc n) ?ys ! j"
      by (auto simp: in_set_conv_nth)
    then have "a = ?ys ! j" and "j \<le> n" by auto
    with sort_desc_nth_mono [of j n xs f] assms show ?thesis by simp
  qed
  then show ?thesis by (simp add: filter_id_conv)
qed

text \<open>The element at index \<open>n\<close> of the copy sorted largest first carries the
  \<open>n + 1\<close>-th highest value.\<close>

lemma kth_highest_sorted:
  fixes f :: "'a \<Rightarrow> real"
  assumes "n < length xs"
  shows "kth_highest (Suc n) (map f xs) (f (sort_key (\<lambda>a. - f a) xs ! n))"
proof -
  let ?ys = "sort_key (\<lambda>a. - f a) xs"
  let ?v = "f (?ys ! n)"
  have mem: "?v \<in> set (map f xs)"
  proof -
    have "?ys ! n \<in> set ?ys" using assms by (intro nth_mem) simp
    then show ?thesis by simp
  qed
  have above: "length (filter (\<lambda>s. ?v < s) (map f xs)) < Suc n"
  proof -
    have "length (filter (\<lambda>s. ?v < s) (map f xs)) = length (filter (\<lambda>a. ?v < f a) xs)"
      by (simp add: filter_map comp_def)
    also have "\<dots> = length (filter (\<lambda>a. ?v < f a) ?ys)"
      by (simp add: filter_sort)
    also have "\<dots> = length (filter (\<lambda>a. ?v < f a) (take n ?ys @ drop n ?ys))"
      by simp
    also have "\<dots> = length (filter (\<lambda>a. ?v < f a) (take n ?ys))"
      unfolding filter_append using filter_above_drop_empty [OF assms, of f] by simp
    also have "\<dots> \<le> length (take n ?ys)" by (rule length_filter_le)
    also have "\<dots> \<le> n" by simp
    finally show ?thesis by simp
  qed
  have atleast: "Suc n \<le> length (filter (\<lambda>s. ?v \<le> s) (map f xs))"
  proof -
    have "Suc n = length (take (Suc n) ?ys)" using assms by simp
    also have "\<dots> = length (filter (\<lambda>a. ?v \<le> f a) (take (Suc n) ?ys))"
      using filter_atleast_take_all [OF assms, of f] by simp
    also have "\<dots> \<le> length (filter (\<lambda>a. ?v \<le> f a) (take (Suc n) ?ys @ drop (Suc n) ?ys))"
      unfolding filter_append by simp
    also have "\<dots> = length (filter (\<lambda>a. ?v \<le> f a) ?ys)" by simp
    also have "\<dots> = length (filter (\<lambda>a. ?v \<le> f a) xs)" by (simp add: filter_sort)
    also have "\<dots> = length (filter (\<lambda>s. ?v \<le> s) (map f xs))"
      by (simp add: filter_map comp_def)
    finally show ?thesis .
  qed
  from mem above atleast show ?thesis unfolding kth_highest_def by blast
qed

text \<open>At most one value is the \<open>k\<close>-th highest of a list.\<close>

lemma kth_highest_unique:
  "kth_highest k scores v \<Longrightarrow> kth_highest k scores w \<Longrightarrow> v = w"
proof (rule ccontr)
  assume v: "kth_highest k scores v" and w: "kth_highest k scores w" and "v \<noteq> w"
  then consider "v < w" | "w < v" by linarith
  then show False
  proof cases
    case 1
    have "length (filter (\<lambda>s. w \<le> s) scores) \<le> length (filter (\<lambda>s. v < s) scores)"
    proof -
      have "filter (\<lambda>s. w \<le> s) scores = filter (\<lambda>s. w \<le> s) (filter (\<lambda>s. v < s) scores)"
        using 1 by (auto intro: filter_cong)
      then show ?thesis by (metis length_filter_le)
    qed
    with v w show False unfolding kth_highest_def by linarith
  next
    case 2
    have "length (filter (\<lambda>s. v \<le> s) scores) \<le> length (filter (\<lambda>s. w < s) scores)"
    proof -
      have "filter (\<lambda>s. v \<le> s) scores = filter (\<lambda>s. v \<le> s) (filter (\<lambda>s. w < s) scores)"
        using 2 by (auto intro: filter_cong)
      then show ?thesis by (metis length_filter_le)
    qed
    with v w show False unfolding kth_highest_def by linarith
  qed
qed

lemma trending_threshold_small:
  "length xs < 15 \<Longrightarrow> trending_threshold xs = 5 / 10"
  by (simp add: trending_threshold_def TOP_TRENDING_COUNT_def)

lemma trending_threshold_rank:
  "15 \<le> length xs \<Longrightarrow> kth_highest 15 (map trend_score xs) (trending_threshold xs)"
  using kth_highest_sorted [of 14 xs trend_score]
  by (simp add: trending_threshold_def TOP_TRENDING_COUNT_def)

text \<open>
  Claim C2. In \<^verbatim>\<open>score_articles\<close>, for every batch, the trending cutoff is the
  \<^verbatim>\<open>trend_score\<close> of the 15th-highest-scoring article when the batch has at least 15
  articles and 0.5 otherwise; every article is flagged trending exactly when its score is
  at least the larger of the cutoff and 0.5; so with fewer than 15 articles no article is
  flagged unless its score is at least 0.5.
\<close>

theorem score_articles_trending:
  assumes "score_articles now arts st = Inr (out, st')"
  shows "\<exists>cutoff.
     (if 15 \<le> length arts then kth_highest 15 (map trend_score out) cutoff
      else cutoff = 5 / 10) \<and>
     (\<forall>a \<in> set out. is_trending a = (max cutoff (5 / 10) \<le> trend_score a)) \<and>
     (length arts < 15 \<longrightarrow> (\<forall>a \<in> set out. is_trending a \<longrightarrow> 5 / 10 \<le> trend_score a))"
proof -
  from score_articles_Inr [OF assms] obtain ts where
    out: "out = phase4 (map (phase3_article now ts) arts)" by blast
  let ?scored = "map (phase3_article now ts) arts"
  let ?cutoff = "trending_threshold ?scored"
  have scores: "map trend_score out = map trend_score ?scored"
    unfolding out by (rule phase4_scores)
  have c: "if 15 \<le> length arts then kth_highest 15 (map trend_score out) ?cutoff
           else ?cutoff = 5 / 10"
  proof (cases "15 \<le> length arts")
    case True
    with trending_threshold_rank [of ?scored] show ?thesis
      unfolding scores by simp
  next
    case False
    with trending_threshold_small [of ?scored] show ?thesis by simp
  qed
  have f: "\<forall>a \<in> set out. is_trending a = (max ?cutoff (5 / 10) \<le> trend_score a)"
    unfolding out by (blast dest: phase4_flag)
  have s: "length arts < 15 \<longrightarrow> (\<forall>a \<in> set out. is_trending a \<longrightarrow> 5 / 10 \<le> trend_score a)"
    using f by auto
  from c f s show ?thesis by blast
qed

theorem score_articles_trending_witness:
  "score_articles 0 large_batch (new_scorer []) =
     Inr (replicate 15
            ((sample_article ''GPT-5'' ''feed-a'')\<lparr>trend_score := 2, is_trending := True\<rparr>) @
          [(sample_article ''quiet day'' ''feed-b'')\<lparr>trend_score := 0, is_trending := False\<rparr>],
          phase1 large_batch (new_scorer [])) \<and>
   kth_highest 15 (replicate 15 2 @ [0]) 2 \<and>
   (\<exists>cutoff. kth_highest 15 (replicate 15 2 @ [0]) cutoff \<and>
      is_trending ((sample_article ''quiet day'' ''feed-b'')\<lparr>trend_score := 0, is_trending := False\<rparr>)
        = (max cutoff (5 / 10) \<le> 0))"
proof -
  let ?a = "(sample_article ''GPT-5'' ''feed-a'')\<lparr>trend_score := 2, is_trending := True\<rparr>"
  let ?b = "(sample_article ''quiet day'' ''feed-b'')\<lparr>trend_score := 0, is_trending := False\<rparr>"
  let ?out = "replicate 15 ?a @ [?b]"
  note e = large_score [of 0]
  have len: "15 \<le> length large_batch" by (simp add: large_batch_def)
  have sc: "map trend_score ?out = replicate 15 2 @ [0]" by simp
  from score_articles_trending [OF e] obtain cutoff where
    k: "kth_highest 15 (map trend_score ?out) cutoff" and
    f: "\<forall>a \<in> set ?out. is_trending a = (max cutoff (5 / 10) \<le> trend_score a)"
    using len by auto
  from f have fb: "is_trending ?b = (max cutoff (5 / 10) \<le> 0)" by simp
  have two: "kth_highest 15 (replicate 15 2 @ [0]) 2"
    by (simp add: kth_highest_def)
  from e two k fb show ?thesis unfolding sc by blast
qed

subsection \<open>The aggregates of phase 1\<close>

lemma dict_get_counter_incr:
  "dict_get (counter_incr t cm) u 0 =
     (if u = t then Suc (dict_get cm t 0) else dict_get cm u 0)"
  by (induction cm) (auto simp: dict_get_def)

lemma in_keys: "(t, c) \<in> set cm \<Longrightarrow> t \<in> fst ` set cm"
  by (rule image_eqI [where x = "(t, c)"]) simp_all

lemma keys_counter_incr:
  "map fst (counter_incr t cm) =
     (if t \<in> fst ` set cm then map fst cm else map fst cm @ [t])"
  by (induction cm) (auto dest: in_keys)

lemma dict_get_sources_add:
  "dict_get (sources_add t src m) u [] =
     (if u = t then set_add src (dict_get m t []) else dict_get m u [])"
  by (induction m) (auto simp: dict_get_def set_add_def)

lemma set_set_add: "set (set_add x xs) = insert x (set xs)"
  by (auto simp: set_add_def)

lemma distinct_set_add: "distinct xs \<Longrightarrow> distinct (set_add x xs)"
  by (auto simp: set_add_def)

lemma history_mention: "history (mention src t st) = history st"
  by (simp add: mention_def)

lemma count_mention:
  "dict_get (current_mentions (mention src t st)) u 0 =
     dict_get (current_mentions st) u 0 + (if u = t then 1 else 0)"
  by (simp add: mention_def dict_get_counter_incr)

lemma keys_mention:
  "fst ` set (current_mentions (mention src t st)) =
     insert t (fst ` set (current_mentions st))"
proof -
  have "set (map fst (counter_incr t (current_mentions st))) =
      insert t (set (map fst (current_mentions st)))"
    unfolding keys_counter_incr by auto
  then show ?thesis by (simp add: mention_def)
qed

lemma distinct_mention:
  "distinct (map fst (current_mentions st)) \<Longrightarrow>
   distinct (map fst (current_mentions (mention src t st)))"
  by (simp add: mention_def keys_counter_incr)

lemma sources_mention:
  "set (dict_get (current_sources (mention src t st)) u []) =
     set (dict_get (current_sources st) u []) \<union> (if u = t then {src} else {})"
  by (simp add: mention_def dict_get_sources_add set_set_add)

lemma distinct_sources_mention:
  "distinct (dict_get (current_sources st) u []) \<Longrightarrow>
   distinct (dict_get (current_sources (mention src t st)) u [])"
  by (auto simp: mention_def dict_get_sources_add distinct_set_add)

text \<open>One article.\<close>

lemma history_fold_mention: "history (fold (mention src) ts st) = history st"
  by (induction ts arbitrary: st) (simp_all add: history_mention)

lemma count_fold_mention:
  "dict_get (current_mentions (fold (mention src) ts st)) u 0 =
     dict_get (current_mentions st) u 0 + count_list ts u"
  by (induction ts arbitrary: st) (simp_all add: count_mention)

lemma keys_fold_mention:
  "fst ` set (current_mentions (fold (mention src) ts st)) =
     fst ` set (current_mentions st) \<union> set ts"
  by (induction ts arbitrary: st) (simp_all add: keys_mention)

lemma sources_fold_mention:
  "set (dict_get (current_sources (fold (mention src) ts st)) u []) =
     set (dict_get (current_sources st) u []) \<union> (if u \<in> set ts then {src} else {})"
  by (induction ts arbitrary: st) (auto simp: sources_mention)

lemma distinct_fold_mention:
  "distinct (map fst (current_mentions st)) \<Longrightarrow>
   distinct (map fst (current_mentions (fold (mention src) ts st)))"
  by (induction ts arbitrary: st) (simp_all add: distinct_mention)

lemma distinct_sources_fold_mention:
  "distinct (dict_get (current_sources st) u []) \<Longrightarrow>
   distinct (dict_get (current_sources (fold (mention src) ts st)) u [])"
  by (induction ts arbitrary: st) (simp_all add: distinct_sources_mention)

text \<open>The whole batch.\<close>

lemma phase1_Nil: "phase1 [] st = st"
  by (simp add: phase1_def)

lemma phase1_Cons: "phase1 (a # arts) st = phase1 arts (phase1_article a st)"
  by (simp add: phase1_def)

lemma history_phase1: "history (phase1 arts st) = history st"
  by (induction arts arbitrary: st)
     (simp_all add: phase1_Nil phase1_Cons phase1_article_def history_fold_mention)

lemma count_phase1:
  "dict_get (current_mentions (phase1 arts st)) u 0 =
     dict_get (current_mentions st) u 0 + count_list (concat (map article_terms arts)) u"
  by (induction arts arbitrary: st)
     (simp_all add: phase1_Nil phase1_Cons phase1_article_def count_fold_mention)

lemma keys_phase1:
  "fst ` set (current_mentions (phase1 arts st)) =
     fst ` set (current_mentions st) \<union> set (concat (map article_terms arts))"
  by (induction arts arbitrary: st)
     (simp_all add: phase1_Nil phase1_Cons phase1_article_def keys_fold_mention Un_assoc)

lemma sources_phase1:
  "set (dict_get (current_sources (phase1 arts st)) u []) =
     set (dict_get (current_sources st) u []) \<union>
     {opt_str (source a) | a. a \<in> set arts \<and> u \<in> set (article_terms a)}"
proof (induction arts arbitrary: st)
  case Nil
  then show ?case by (simp add: phase1_Nil)
next
  case (Cons a arts)
  show ?case
    unfolding phase1_Cons Cons.IH phase1_article_def sources_fold_mention
    by auto
qed

lemma distinct_phase1:
  "distinct (map fst (current_mentions st)) \<Longrightarrow>
   distinct (map fst (current_mentions (phase1 arts st)))"
  by (induction arts arbitrary: st)
     (simp_all add: phase1_Nil phase1_Cons phase1_article_def distinct_fold_mention)

lemma distinct_sources_phase1:
  "distinct (dict_get (current_sources st) u []) \<Longrightarrow>
   distinct (dict_get (current_sources (phase1 arts st)) u [])"
  by (induction arts arbitrary: st)
     (simp_all add: phase1_Nil phase1_Cons phase1_article_def distinct_sources_fold_mention)

text \<open>From a new scorer.\<close>

lemma new_scorer_count:
  "dict_get (current_mentions (phase1 arts (new_scorer h))) u 0 =
     count_list (concat (map article_terms arts)) u"
  by (simp add: count_phase1) (simp add: new_scorer_def dict_get_def)

lemma new_scorer_keys:
  "fst ` set (current_mentions (phase1 arts (new_scorer h))) =
     set (concat (map article_terms arts))"
  by (simp only: keys_phase1) (simp add: new_scorer_def)

lemma new_scorer_distinct:
  "distinct (map fst (current_mentions (phase1 arts (new_scorer h))))"
  by (rule distinct_phase1) (simp add: new_scorer_def)

lemma new_scorer_entry:
  assumes "(u, c) \<in> set (current_mentions (phase1 arts (new_scorer h)))"
  shows "c = count_list (concat (map article_terms arts)) u"
proof -
  from assms new_scorer_distinct [of arts h]
  have "map_of (current_mentions (phase1 arts (new_scorer h))) u = Some c"
    by simp
  then have "dict_get (current_mentions (phase1 arts (new_scorer h))) u 0 = c"
    by (simp add: dict_get_def)
  then show ?thesis by (simp add: new_scorer_count)
qed

lemma new_scorer_num_sources:
  "length (dict_get (current_sources (phase1 arts (new_scorer h))) u []) =
     card {opt_str (source a) | a. a \<in> set arts \<and> u \<in> set (article_terms a)}"
proof -
  let ?l = "dict_get (current_sources (phase1 arts (new_scorer h))) u []"
  have d: "distinct ?l"
    by (rule distinct_sources_phase1) (simp add: new_scorer_def dict_get_def)
  have s: "set ?l = {opt_str (source a) | a. a \<in> set arts \<and> u \<in> set (article_terms a)}"
    by (simp only: sources_phase1) (simp add: new_scorer_def dict_get_def)
  from distinct_card [OF d] s show ?thesis by simp
qed

subsection \<open>Term scores\<close>

lemma phase2_Cons_Inr:
  assumes "phase2 h srcs ((u, count) # items) = Inr ts"
  shows "(count < 2 \<and> phase2 h srcs items = Inr ts) \<or>
     (2 \<le> count \<and>
      (\<exists>v rest. calculate_velocity h u (int count) = Inr v \<and>
         phase2 h srcs items = Inr rest \<and>
         ts = (u, v * min (1 + 15 / 100 *
                 real_of_int (int (length (dict_get srcs u [])) - 1)) 2) # rest))"
proof (cases "count < 2")
  case True
  with assms show ?thesis by simp
next
  case False
  with assms obtain v where v: "calculate_velocity h u (int count) = Inr v"
    by (cases "calculate_velocity h u (int count)") simp_all
  with assms False obtain rest where r: "phase2 h srcs items = Inr rest"
    by (cases "phase2 h srcs items") (simp_all add: Let_def)
  from assms False v r show ?thesis by (simp add: Let_def)
qed

lemma phase2_entry:
  "phase2 h srcs items = Inr ts \<Longrightarrow> (t, s) \<in> set ts \<Longrightarrow>
     \<exists>c v. (t, c) \<in> set items \<and> 2 \<le> c \<and> calculate_velocity h t (int c) = Inr v \<and>
       s = v * min (1 + 15 / 100 * real_of_int (int (length (dict_get srcs t [])) - 1)) 2"
proof (induction items arbitrary: ts)
  case Nil
  then show ?case by simp
next
  case (Cons item items)
  obtain u count where item: "item = (u, count)" by (cases item)
  from phase2_Cons_Inr [OF Cons.prems(1) [unfolded item]]
  show ?case
  proof (elim disjE conjE exE)
    assume "phase2 h srcs items = Inr ts"
    from Cons.IH [OF this Cons.prems(2)] show ?thesis by auto
  next
    fix v rest
    assume c2: "2 \<le> count" and v: "calculate_velocity h u (int count) = Inr v"
      and r: "phase2 h srcs items = Inr rest"
      and ts: "ts = (u, v * min (1 + 15 / 100 *
                 real_of_int (int (length (dict_get srcs u [])) - 1)) 2) # rest"
    from Cons.prems(2) ts consider
      "t = u" "s = v * min (1 + 15 / 100 *
                 real_of_int (int (length (dict_get srcs u [])) - 1)) 2"
      | "(t, s) \<in> set rest" by auto
    then show ?thesis
    proof cases
      case 1
      with c2 v item show ?thesis by auto
    next
      case 2
      from Cons.IH [OF r 2] show ?thesis by auto
    qed
  qed
qed



lemma most_common_subset: "set (most_common n cm) \<subseteq> set cm"
  unfolding most_common_def using set_take_subset [of n "sort_key (\<lambda>(t, c). - int c) cm"]
  by simp






subsection \<open>Single mentions\<close>


lemma phase2_no_singleton:
  assumes "phase2 h srcs items = Inr ts" and "distinct (map fst items)"
    and "(t, 1) \<in> set items"
  shows "t \<notin> fst ` set ts"
proof
  assume "t \<in> fst ` set ts"
  then obtain s where "(t, s) \<in> set ts" by auto
  from phase2_entry [OF assms(1) this] obtain c where c: "(t, c) \<in> set items" "2 \<le> c"
    by blast
  from assms(2) c(1) assms(3) have "c = 1"
    by (meson eq_key_imp_eq_value)
  with c(2) show False by simp
qed



subsection \<open>Saving and loading\<close>

lemma keep_snapshot_make: "keep_snapshot c (make_snapshot ts ms) = Inr (str_le c ts)"
  by (simp add: keep_snapshot_def make_snapshot_def dict_get_def)

text \<open>Whether an element of the history raises does not depend on the cutoff.\<close>

lemma keep_snapshot_cutoff:
  "keep_snapshot c s = Inr b \<Longrightarrow> \<exists>b'. keep_snapshot c' s = Inr b'"
  by (auto simp: keep_snapshot_def split: json.splits)

lemma prune_append:
  "prune c (xs @ [s]) =
     (case prune c xs of
        Inl e \<Rightarrow> Inl e
      | Inr kept \<Rightarrow>
          (case keep_snapshot c s of
             Inl e \<Rightarrow> Inl e
           | Inr keep \<Rightarrow> Inr (if keep then kept @ [s] else kept)))"
  by (induction xs) (auto split: sum.splits)

lemma prune_Inr:
  "prune c xs = Inr kept \<Longrightarrow>
     set kept \<subseteq> set xs \<and> (\<forall>s \<in> set xs. \<exists>b. keep_snapshot c s = Inr b)"
  by (induction xs arbitrary: kept) (auto split: sum.splits if_splits)

lemma prune_total:
  "\<forall>s \<in> set xs. \<exists>b. keep_snapshot c s = Inr b \<Longrightarrow> \<exists>kept. prune c xs = Inr kept"
  by (induction xs) (auto split: sum.splits)

lemma prune_again:
  assumes "prune c xs = Inr kept"
  shows "\<exists>kept'. prune c' kept = Inr kept'"
proof (rule prune_total, rule ballI)
  fix s assume "s \<in> set kept"
  with prune_Inr [OF assms] obtain b where "keep_snapshot c s = Inr b" by blast
  from keep_snapshot_cutoff [OF this] show "\<exists>b. keep_snapshot c' s = Inr b" .
qed

lemma distinct_most_common:
  assumes "distinct (map fst cm)"
  shows "distinct (map fst (most_common n cm))"
proof -
  let ?s = "sort_key (\<lambda>(t, c). - int c) cm"
  from assms have "distinct cm" and "inj_on fst (set cm)"
    by (simp_all add: distinct_map)
  then have "distinct (take n ?s)" and "inj_on fst (set (take n ?s))"
    using set_take_subset [of n ?s] by (auto intro: inj_on_subset)
  then show ?thesis
    unfolding most_common_def by (simp add: distinct_map)
qed

text \<open>
  Claim C6. For every state of \<^verbatim>\<open>current_mentions\<close>, calling \<^verbatim>\<open>save_history\<close> and then
  loading the file it wrote, at a time within the seven-day window and before another
  snapshot is appended, yields a history whose newest snapshot maps every term that was
  among the 200 most common to the count it had in the saved state.

  \<open>ts\<close> is the timestamp of the save, \<open>c1\<close> the cutoff of the save and \<open>c2\<close> the cutoff of
  the later load; that neither cutoff is behind the timestamp is the seven-day window. The keys of the
  counter are distinct, as the keys of a dict are.
\<close>

theorem save_load_round_trip:
  assumes save: "save_history ts c1 st = Inr (st', file)"
    and w1: "str_le c1 ts" and w2: "str_le c2 ts"
    and d: "distinct (map fst (current_mentions st))"
  shows "\<exists>h. load_history file c2 = Inr (h, []) \<and> h \<noteq> [] \<and>
     (\<forall>t c. (t, c) \<in> set (most_common 200 (current_mentions st)) \<longrightarrow>
        dict_get (current_mentions st) t 0 = c \<and>
        snapshot_count t (last h) = Inr (JInt (int c)))"
proof -
  let ?ms = "most_common 200 (current_mentions st)"
  let ?snap = "make_snapshot ts ?ms"
  from save obtain kept where
    p: "prune c1 (history st @ [?snap]) = Inr kept" and doc: "file = Document (JArr kept)"
    by (auto simp: save_history_def Let_def split: sum.splits)
  from p obtain old where old: "prune c1 (history st) = Inr old" and kept: "kept = old @ [?snap]"
    by (auto simp: prune_append keep_snapshot_make w1 split: sum.splits)
  from prune_again [OF old, of c2] obtain old' where old': "prune c2 old = Inr old'" by blast
  have p2: "prune c2 kept = Inr (old' @ [?snap])"
    unfolding kept by (simp add: prune_append old' keep_snapshot_make w2)
  have load: "load_history file c2 = Inr (old' @ [?snap], [])"
    unfolding doc by (simp add: load_history_def iterate_def p2)
  have entry: "dict_get (current_mentions st) t 0 = c \<and>
      snapshot_count t (last (old' @ [?snap])) = Inr (JInt (int c))"
    if "(t, c) \<in> set ?ms" for t c
  proof -
    from that distinct_most_common [OF d, of 200] have "map_of ?ms t = Some c" by simp
    then have 1: "snapshot_count t ?snap = Inr (JInt (int c))"
      by (simp add: snapshot_count_make)
    from that most_common_subset [of 200 "current_mentions st"] d
    have "map_of (current_mentions st) t = Some c" by auto
    then have 2: "dict_get (current_mentions st) t 0 = c" by (simp add: dict_get_def)
    from 1 2 show ?thesis by simp
  qed
  from load entry show ?thesis by blast
qed

lemma sample_window: "str_le ''2026-10-28T00:00:00+00:00'' ''2026-11-04T00:00:00+00:00''"
  by simp

lemma sample_save:
  "save_history ''2026-11-04T00:00:00+00:00'' ''2026-10-28T00:00:00+00:00''
     (phase1 sample_batch (new_scorer [])) =
   Inr ((phase1 sample_batch (new_scorer []))
          \<lparr>history := [make_snapshot ''2026-11-04T00:00:00+00:00''
                        [(''GPT'', 5), (''Try GPT'', 1), (''Now'', 1)]]\<rparr>,
        Document (JArr [make_snapshot ''2026-11-04T00:00:00+00:00''
                        [(''GPT'', 5), (''Try GPT'', 1), (''Now'', 1)]]))"
proof -
  have mc: "most_common 200 [(''GPT'', 5), (''Try GPT'', 1), (''Now'', 1)] =
      [(''GPT'', 5), (''Try GPT'', 1), (''Now'', 1 :: nat)]"
    by (simp add: most_common_def)
  show ?thesis
    unfolding save_history_def Let_def sample_phase1 scorer.simps mc
    by (simp add: keep_snapshot_make sample_window)
qed

theorem save_load_round_trip_witness:
  "\<exists>h. load_history
          (Document (JArr [make_snapshot ''2026-11-04T00:00:00+00:00''
                             [(''GPT'', 5), (''Try GPT'', 1), (''Now'', 1)]]))
          ''2026-10-28T00:00:00+00:00'' = Inr (h, []) \<and>
        h \<noteq> [] \<and> snapshot_count ''GPT'' (last h) = Inr (JInt (int 5))"
proof -
  let ?st = "phase1 sample_batch (new_scorer [])"
  have d: "distinct (map fst (current_mentions ?st))"
    by (rule new_scorer_distinct)
  have m: "(''GPT'', 5) \<in> set (most_common 200 (current_mentions ?st))"
    unfolding sample_phase1 scorer.simps by (simp add: most_common_def)
  from save_load_round_trip [OF sample_save sample_window sample_window d] m
  show ?thesis by blast
qed

subsection \<open>The characters of a term\<close>


lemma upper_alnum: "is_upper c \<Longrightarrow> is_alnum c"
  by (simp add: is_alnum_def)

lemma alnum_term_char: "is_alnum c \<Longrightarrow> term_char c"
  by (simp add: term_char_def is_word_def)

lemma takeWhile_all: "\<forall>x \<in> set (takeWhile P xs). P x"
  by (auto dest: set_takeWhileD)

lemma take_length_takeWhile: "take (length (takeWhile P xs)) xs = takeWhile P xs"
  by (induction xs) auto


lemma caps_ends_chars:
  "n \<in> set (caps_ends s) \<Longrightarrow> \<forall>ch \<in> set (take n s). term_char ch"
proof (induction s arbitrary: n rule: caps_ends.induct)
  case 1
  then show ?case by simp
next
  case (2 c cs)
  let ?w = "length (takeWhile is_alnum cs)"
  let ?r = "drop ?w cs"
  let ?k = "length (takeWhile is_space ?r)"
  from "2.prems" have up: "is_upper c"
    by (auto split: if_splits)
  have word: "\<forall>ch \<in> set (take ?w cs). term_char ch"
    unfolding take_length_takeWhile using takeWhile_all [of is_alnum cs]
    by (auto intro: alnum_term_char)
  have gap: "\<forall>ch \<in> set (take ?k ?r). term_char ch"
    unfolding take_length_takeWhile using takeWhile_all [of is_space ?r]
    by (auto simp: term_char_def)
  from "2.prems" up consider "n = Suc ?w"
    | e where "?k \<noteq> 0" "e \<in> set (caps_ends (drop ?k ?r))" "n = Suc ?w + ?k + e"
    by (auto simp: Let_def split: if_splits)
  then show ?case
  proof cases
    case 1
    with up word show ?thesis by (auto intro: alnum_term_char upper_alnum)
  next
    case 2
    from "2.IH" [OF _ refl refl refl _ 2(2)] up 2(1)
    have rest: "\<forall>ch \<in> set (take e (drop ?k ?r)). term_char ch" by simp
    have "take n (c # cs) = c # (take ?w cs @ take ?k ?r @ take e (drop ?k ?r))"
      unfolding 2(3) by (simp add: take_add add.assoc)
    with up word gap rest show ?thesis
      by (auto intro: alnum_term_char upper_alnum)
  qed
qed

lemma caps_match_chars:
  "caps_match s = Some n \<Longrightarrow> \<forall>ch \<in> set (take n s). term_char ch"
proof -
  assume "caps_match s = Some n"
  then obtain ns where "filter (boundary_at s) (rev (caps_ends s)) = n # ns"
    by (auto simp: caps_match_def split: list.splits)
  then have "n \<in> set (filter (boundary_at s) (rev (caps_ends s)))"
    by (simp only: list.set_intros)
  then have "n \<in> set (caps_ends s)" by simp
  then show ?thesis by (rule caps_ends_chars)
qed

lemma caps_findall_chars:
  "t \<in> set (caps_findall prev s) \<Longrightarrow> \<forall>ch \<in> set t. term_char ch"
proof (induction prev s rule: caps_findall.induct)
  case (1 prev)
  then show ?case by simp
next
  case (2 prev c cs)
  show ?case
  proof (cases "boundary_before prev")
    case False
    with 2 show ?thesis by simp
  next
    case True
    show ?thesis
    proof (cases "caps_match (c # cs)")
      case None
      with 2 True show ?thesis by simp
    next
      case (Some n)
      from "2.prems" True Some consider "t = take n (c # cs)"
        | "t \<in> set (caps_findall (Some (last (take n (c # cs)))) (drop (n - 1) cs))"
        by auto
      then show ?thesis
      proof cases
        case 1
        with caps_match_chars [OF Some] show ?thesis by simp
      next
        case 2
        from "2.IH"(2) [OF True Some 2] show ?thesis .
      qed
    qed
  qed
qed

lemma acronym_findall_chars:
  "t \<in> set (acronym_findall prev s) \<Longrightarrow> \<forall>ch \<in> set t. term_char ch"
proof (induction prev s rule: acronym_findall.induct)
  case (1 prev)
  then show ?case by simp
next
  case (2 prev c cs)
  let ?n = "length (takeWhile is_upper (c # cs))"
  show ?case
  proof (cases "boundary_before prev \<and> 2 \<le> ?n \<and> ?n \<le> 6 \<and> boundary_at (c # cs) ?n")
    case False
    with "2.prems" have "t \<in> set (acronym_findall (Some c) cs)"
      by (simp add: Let_def del: takeWhile.simps)
    from "2.IH"(2) [OF refl False this] show ?thesis .
  next
    case True
    with "2.prems" consider "t = take ?n (c # cs)"
      | "t \<in> set (acronym_findall (Some (last (take ?n (c # cs)))) (drop (?n - 1) cs))"
      by (auto simp: Let_def simp del: takeWhile.simps)
    then show ?thesis
    proof cases
      case 1
      have "take ?n (c # cs) = takeWhile is_upper (c # cs)"
        by (rule take_length_takeWhile)
      with 1 takeWhile_all [of is_upper "c # cs"] show ?thesis
        by (auto intro: alnum_term_char upper_alnum simp del: takeWhile.simps)
    next
      case 2
      from "2.IH"(1) [OF refl True 2] show ?thesis .
    qed
  qed
qed

lemma hashtag_findall_chars:
  "t \<in> set (hashtag_findall s) \<Longrightarrow> \<forall>ch \<in> set t. term_char ch"
proof (induction s rule: hashtag_findall.induct)
  case 1
  then show ?case by simp
next
  case (2 c cs)
  let ?w = "takeWhile is_word cs"
  show ?case
  proof (cases "c = CHR ''#'' \<and> ?w \<noteq> []")
    case False
    with "2.prems" have "t \<in> set (hashtag_findall cs)" by (auto simp: Let_def)
    from "2.IH"(2) [OF refl False this] show ?thesis .
  next
    case True
    with "2.prems" consider "t = ?w" | "t \<in> set (hashtag_findall (drop (length ?w) cs))"
      by (auto simp: Let_def)
    then show ?thesis
    proof cases
      case 1
      with takeWhile_all [of is_word cs] show ?thesis by (auto simp: term_char_def)
    next
      case 2
      from "2.IH"(1) [OF refl True 2] show ?thesis .
    qed
  qed
qed

lemma set_strip: "set (strip s) \<subseteq> set s"
  unfolding strip_def
  using set_dropWhileD [of _ is_space "rev (dropWhile is_space s)"] set_dropWhileD [of _ is_space s]
  by auto

lemma extract_terms_chars:
  assumes "t \<in> set (extract_terms text)"
  shows "\<forall>ch \<in> set t. term_char ch"
proof -
  from assms consider
    u where "u \<in> set (caps_findall None text)" "t = strip u"
    | "t \<in> set (acronym_findall None text)"
    | "t \<in> set (hashtag_findall text)"
    by (auto simp: extract_terms_def split: if_splits)
  then show ?thesis
  proof cases
    case 1
    with caps_findall_chars [OF 1(1)] set_strip [of u] show ?thesis by auto
  next
    case 2
    then show ?thesis by (rule acronym_findall_chars)
  next
    case 3
    then show ?thesis by (rule hashtag_findall_chars)
  qed
qed

lemma hyphen_no_term_char: "\<not> term_char CHR ''-''"
  by (simp add: term_char_def is_word_def is_alnum_def is_upper_def is_space_def)

lemma no_hyphen_term: "''GPT-5'' \<notin> set (extract_terms text)"
proof
  assume "''GPT-5'' \<in> set (extract_terms text)"
  from extract_terms_chars [OF this] have "term_char CHR ''-''" by simp
  with hyphen_no_term_char show False ..
qed

subsection \<open>The GPT-5 scenario\<close>

lemma velocity_empty_history:
  "calculate_velocity [] t c = Inr (if 2 \<le> c then 2 else 3 / 2)"
  by (simp add: calculate_velocity_def get_historical_avg_def)

lemma phase2_empty_history: "\<exists>ts. phase2 [] srcs items = Inr ts"
proof (induction items)
  case Nil
  then show ?case by simp
next
  case (Cons item items)
  obtain u count where item: "item = (u, count)" by (cases item)
  from Cons.IH obtain ts where "phase2 [] srcs items = Inr ts" ..
  then show ?case
    unfolding item by (simp add: velocity_empty_history Let_def)
qed

lemma phase2_keys:
  assumes "phase2 h srcs items = Inr ts"
  shows "fst ` set ts \<subseteq> fst ` set items"
proof
  fix t assume "t \<in> fst ` set ts"
  then obtain s where "(t, s) \<in> set ts" by auto
  from phase2_entry [OF assms this] show "t \<in> fst ` set items"
    by (auto dest: in_keys)
qed

lemma phase2_lookup:
  "phase2 h srcs items = Inr ts \<Longrightarrow> distinct (map fst items) \<Longrightarrow> (t, c) \<in> set items \<Longrightarrow>
   2 \<le> c \<Longrightarrow> calculate_velocity h t (int c) = Inr v \<Longrightarrow>
   map_of ts t =
     Some (v * min (1 + 15 / 100 * real_of_int (int (length (dict_get srcs t [])) - 1)) 2)"
proof (induction items arbitrary: ts)
  case Nil
  then show ?case by simp
next
  case (Cons item items)
  obtain u count where item: "item = (u, count)" by (cases item)
  from Cons.prems(2) item have d: "distinct (map fst items)" and u: "u \<notin> fst ` set items"
    by simp_all
  show ?case
  proof (cases "t = u")
    case True
    with Cons.prems(3) item u have c: "count = c"
      by (auto dest: in_keys)
    from Cons.prems(1) [unfolded item] Cons.prems(4,5) True c
    obtain rest where "ts = (u, v * min (1 + 15 / 100 *
        real_of_int (int (length (dict_get srcs u [])) - 1)) 2) # rest"
      by (auto simp: Let_def split: sum.splits)
    with True show ?thesis by simp
  next
    case False
    with Cons.prems(3) item have mem: "(t, c) \<in> set items" by auto
    from phase2_Cons_Inr [OF Cons.prems(1) [unfolded item]]
    show ?thesis
    proof (elim disjE conjE exE)
      assume "phase2 h srcs items = Inr ts"
      from Cons.IH [OF this d mem Cons.prems(4,5)] show ?thesis .
    next
      fix w rest
      assume r: "phase2 h srcs items = Inr rest" and
        ts: "ts = (u, w * min (1 + 15 / 100 *
                 real_of_int (int (length (dict_get srcs u [])) - 1)) 2) # rest"
      from Cons.IH [OF r d mem Cons.prems(4,5)] False show ?thesis
        unfolding ts by simp
    qed
  qed
qed

lemma count_list_concat_ge:
  "\<forall>xs \<in> set xss. t \<in> set xs \<Longrightarrow> length xss \<le> count_list (concat xss) t"
proof (induction xss)
  case Nil
  then show ?case by simp
next
  case (Cons xs xss)
  then have "t \<in> set xs" by simp
  then have "count_list xs t \<noteq> 0"
    by (simp add: count_list_0_iff)
  then have "1 \<le> count_list xs t" by simp
  with Cons show ?case by simp
qed

text \<open>
  Claim C4, as amended. For a batch of 3 articles of 2 distinct sources, scored with empty
  history, in which the text of every article yields the term "GPT" (as a title does that
  contains "GPT-5" as a word of its own: the patterns stop at the hyphen), the term "GPT"
  receives a phase-2 term score of exactly 2.3, and "GPT-5" is no key of
  \<^verbatim>\<open>term_scores\<close>.

  The claim as stated gives the score to the term "GPT-5". No pattern of
  \<^verbatim>\<open>_extract_terms\<close> matches a hyphen, so this term is never extracted.
\<close>

theorem gpt_term_score:
  assumes len: "length arts = 3"
    and all: "\<forall>a \<in> set arts. ''GPT'' \<in> set (article_terms a)"
    and two: "card (set (map (\<lambda>a. opt_str (source a)) arts)) = 2"
    and st: "st = phase1 arts (new_scorer [])"
  shows "\<exists>ts. phase2 (history st) (current_sources st) (current_mentions st) = Inr ts \<and>
     map_of ts ''GPT'' = Some (23 / 10) \<and> map_of ts ''GPT-5'' = None"
proof -
  let ?c = "count_list (concat (map article_terms arts)) ''GPT''"
  have hist: "history st = []"
    by (simp add: st history_phase1) (simp add: new_scorer_def)
  from phase2_empty_history obtain ts where
    p2: "phase2 (history st) (current_sources st) (current_mentions st) = Inr ts"
    unfolding hist by blast
  have c3: "3 \<le> ?c"
    using count_list_concat_ge [of "map article_terms arts" "''GPT''"] all len by simp
  have "''GPT'' \<in> fst ` set (current_mentions st)"
  proof -
    from c3 have "?c \<noteq> 0" by simp
    then show ?thesis
      unfolding st new_scorer_keys by (simp only: count_list_0_iff) simp
  qed
  then obtain c where e: "(''GPT'', c) \<in> set (current_mentions st)" by auto
  then have c: "c = ?c" unfolding st by (rule new_scorer_entry)
  have d: "distinct (map fst (current_mentions st))"
    unfolding st by (rule new_scorer_distinct)
  have n: "length (dict_get (current_sources st) ''GPT'' []) = 2"
  proof -
    have "{opt_str (source a) | a. a \<in> set arts \<and> ''GPT'' \<in> set (article_terms a)} =
        set (map (\<lambda>a. opt_str (source a)) arts)"
      using all by auto
    then show ?thesis
      unfolding st new_scorer_num_sources using two by simp
  qed
  have v: "calculate_velocity (history st) ''GPT'' (int c) = Inr 2"
    unfolding hist velocity_empty_history using c c3 by simp
  from phase2_lookup [OF p2 d e _ v] c c3
  have gpt: "map_of ts ''GPT'' = Some (23 / 10)"
    unfolding n by simp
  have "''GPT-5'' \<notin> fst ` set ts"
  proof
    assume "''GPT-5'' \<in> fst ` set ts"
    with phase2_keys [OF p2] have "''GPT-5'' \<in> fst ` set (current_mentions st)" by blast
    then obtain a where "a \<in> set arts" "''GPT-5'' \<in> set (article_terms a)"
      unfolding st new_scorer_keys by auto
    then show False by (simp add: article_terms_def no_hyphen_term)
  qed
  then have none: "map_of ts ''GPT-5'' = None"
    by (simp add: map_of_eq_None_iff)
  from p2 gpt none show ?thesis by blast
qed

theorem gpt_term_score_witness:
  "\<exists>ts. phase2 (history (phase1 sample_batch (new_scorer [])))
          (current_sources (phase1 sample_batch (new_scorer [])))
          (current_mentions (phase1 sample_batch (new_scorer []))) = Inr ts \<and>
        map_of ts ''GPT'' = Some (23 / 10) \<and> map_of ts ''GPT-5'' = None"
proof -
  have len: "length sample_batch = 3"
    by (simp add: sample_batch_def)
  have all: "\<forall>a \<in> set sample_batch. ''GPT'' \<in> set (article_terms a)"
    by (simp add: sample_batch_def terms_gpt5 terms_gpt5_out terms_try_gpt5)
  have two: "card (set (map (\<lambda>a. opt_str (source a)) sample_batch)) = 2"
    by (simp add: sample_batch_def sample_article_def opt_str_def card_insert_if)
  from gpt_term_score [OF len all two refl] show ?thesis .
qed

text \<open>The sample batch meets the claim as stated: three titles that contain "GPT-5", two
  sources, no history. Its \<^verbatim>\<open>term_scores\<close> have the one key "GPT".\<close>

theorem gpt5_term_score_counterexample:
  "map title sample_batch = [Some ''GPT-5'', Some ''GPT-5 is out'', Some ''Try GPT-5 Now''] \<and>
   map source sample_batch = [Some ''feed-a'', Some ''feed-b'', Some ''feed-a''] \<and>
   phase2 (history (phase1 sample_batch (new_scorer [])))
     (current_sources (phase1 sample_batch (new_scorer [])))
     (current_mentions (phase1 sample_batch (new_scorer []))) = Inr [(''GPT'', 23 / 10)] \<and>
   map_of [(''GPT'', 23 / 10 :: real)] ''GPT-5'' \<noteq> Some (23 / 10)"
proof -
  let ?st = "phase1 sample_batch (new_scorer [])"
  have t: "map title sample_batch = [Some ''GPT-5'', Some ''GPT-5 is out'', Some ''Try GPT-5 Now'']"
    by (simp add: sample_batch_def sample_article_def)
  have s: "map source sample_batch = [Some ''feed-a'', Some ''feed-b'', Some ''feed-a'']"
    by (simp add: sample_batch_def sample_article_def)
  have p2: "phase2 (history ?st) (current_sources ?st) (current_mentions ?st) =
      Inr [(''GPT'', 23 / 10)]"
    unfolding sample_phase1 scorer.simps by (rule sample_phase2)
  have n: "map_of [(''GPT'', 23 / 10 :: real)] ''GPT-5'' \<noteq> Some (23 / 10)"
    by simp
  from t s p2 n show ?thesis by blast
qed

end
